theory Spec2Isabelle
  imports Main
begin

section \<open>The request pipeline of \<^verbatim>\<open>src/app.js\<close>\<close>

text \<open>
  \<^verbatim>\<open>src/app.js\<close> composes an Express application: a stack of middleware layers
  registered with \<^verbatim>\<open>app.use\<close>, two routes registered with \<^verbatim>\<open>app.get\<close>, a
  catch-all 404 layer and an error-handling layer. The code written in the file itself is
  the "global variables" middleware (lines 68-74), the home handler (83-91), the dashboard
  handler (94-107), \<^verbatim>\<open>ensureAuthenticated\<close> (110-116), the 404 handler (119-125) and
  the configuration fallbacks (46, 131). Everything else is a library or a module of the
  repository that is not part of the file; those layers are parameters of the model.
\<close>

subsection \<open>JavaScript values and truthiness\<close>

text \<open>
  The values the handlers store in \<^verbatim>\<open>res.locals\<close> and in render options: the user
  object that passport deserialises (of an arbitrary type \<open>'u\<close>), \<^verbatim>\<open>undefined\<close>,
  \<^verbatim>\<open>null\<close>, strings, numbers and arrays of strings (the flash messages).
\<close>

datatype 'u jsval =
    JUndefined
  | JNull
  | JUser 'u
  | JStr string
  | JNum nat
  | JList "string list"

text \<open>JavaScript's ToBoolean on these values: an object or array is truthy, the empty
  string and the number 0 are not.\<close>

fun truthy :: "'u jsval \<Rightarrow> bool" where
  "truthy JUndefined = False"
| "truthy JNull = False"
| "truthy (JUser u) = True"
| "truthy (JStr s) = (s \<noteq> [])"
| "truthy (JNum n) = (n \<noteq> 0)"
| "truthy (JList xs) = True"

text \<open>\<^verbatim>\<open>a || b\<close>\<close>

definition js_or :: "'u jsval \<Rightarrow> 'u jsval \<Rightarrow> 'u jsval" where
  "js_or a b = (if truthy a then a else b)"

subsection \<open>Request state\<close>

datatype http_method = GET | HEAD | POST | PUT | DELETE | PATCH | OPTIONS

text \<open>
  The part of \<^verbatim>\<open>req\<close>/\<open>res\<close> that the code of \<^verbatim>\<open>app.js\<close> reads or writes:
  \<^item> \<open>req_method\<close>, \<open>req_path\<close>: what the router matches on (the method as
    \<^verbatim>\<open>method-override\<close> leaves it, the path without the query string);
  \<^item> \<open>req_user\<close>: \<^verbatim>\<open>req.user\<close> as passport's session layer resolves it
    (\<open>JUndefined\<close> for an anonymous request);
  \<^item> \<open>session_flash\<close>: \<^verbatim>\<open>req.session.flash\<close>, the store of connect-flash, one
    array of messages per key; a key that is not there is \<open>None\<close>;
  \<^item> \<open>res_locals\<close>: \<^verbatim>\<open>res.locals\<close>;
  \<^item> \<open>console_error\<close>: what \<^verbatim>\<open>console.error\<close> has printed.
  The state handed to the pipeline holds the identity and the flash store of the session the
  request belongs to; a first visit has \<open>req_user = JUndefined\<close> and an empty store.
  The session object itself is there whenever the code of \<^verbatim>\<open>app.js\<close> calls
  \<^verbatim>\<open>req.flash\<close> (express-session has attached it), so these calls do not throw.
\<close>

record 'u state =
  req_method :: http_method
  req_path :: string
  req_user :: "'u jsval"
  session_flash :: "string \<rightharpoonup> string list"
  res_locals :: "string \<rightharpoonup> 'u jsval"
  console_error :: "string list"

subsection \<open>connect-flash and passport as \<^verbatim>\<open>app.js\<close> calls them\<close>

text \<open>
  \<^verbatim>\<open>req.flash(type, msg)\<close> appends \<open>msg\<close> to the array stored under \<open>type\<close>,
  creating it when absent:
  \<^verbatim>\<open>(msgs[type] = msgs[type] || []).push(msg)\<close>.
\<close>

definition queued :: "(string \<rightharpoonup> string list) \<Rightarrow> string \<Rightarrow> string list" where
  "queued f k = (case f k of None \<Rightarrow> [] | Some ms \<Rightarrow> ms)"

definition flash_push ::
  "string \<Rightarrow> string \<Rightarrow> (string \<rightharpoonup> string list) \<Rightarrow> (string \<rightharpoonup> string list)" where
  "flash_push k m f = f(k \<mapsto> queued f k @ [m])"

text \<open>
  \<^verbatim>\<open>req.flash(type)\<close> returns the array stored under \<open>type\<close> (the empty array when
  there is none) and deletes the key:
  \<^verbatim>\<open>var arr = msgs[type]; delete msgs[type]; return arr || [];\<close>
\<close>

definition flash_take ::
  "string \<Rightarrow> (string \<rightharpoonup> string list) \<Rightarrow> string list \<times> (string \<rightharpoonup> string list)" where
  "flash_take k f = (queued f k, f(k := None))"

text \<open>The two calls on the request state.\<close>

definition req_flash_push :: "string \<Rightarrow> string \<Rightarrow> 'u state \<Rightarrow> 'u state" where
  "req_flash_push k m st = st\<lparr>session_flash := flash_push k m (session_flash st)\<rparr>"

text \<open>\<^verbatim>\<open>res.locals.k = req.flash(k)\<close>: drain the key and store the array under it.\<close>

definition drain_into_locals :: "string \<Rightarrow> 'u state \<Rightarrow> 'u state" where
  "drain_into_locals k st =
     (case flash_take k (session_flash st) of
        (ms, f') \<Rightarrow> st\<lparr>session_flash := f', res_locals := (res_locals st)(k \<mapsto> JList ms)\<rparr>)"

text \<open>
  \<^verbatim>\<open>req.isAuthenticated()\<close> of passport:
  \<^verbatim>\<open>return (this[property]) ? true : false\<close> with \<open>property = 'user'\<close>.
\<close>

definition isAuthenticated :: "'u state \<Rightarrow> bool" where
  "isAuthenticated st = truthy (req_user st)"

subsection \<open>Responses and handler outcomes\<close>

text \<open>
  \<open>Redirect p\<close> is \<^verbatim>\<open>res.redirect(p)\<close>; \<open>Render code view opts\<close> is
  \<^verbatim>\<open>res.status(code).render(view, opts)\<close> (code 200 when no status is set);
  \<open>Sent code\<close> is any other response of an external layer.
\<close>

datatype 'u response =
    Redirect string
  | Render nat string "string \<rightharpoonup> 'u jsval"
  | Sent nat

text \<open>
  The data the view receives: Express merges \<^verbatim>\<open>res.locals\<close> and then the options of the
  call, the options winning on a common key.
\<close>

definition view_context :: "'u state \<Rightarrow> (string \<rightharpoonup> 'u jsval) \<Rightarrow> (string \<rightharpoonup> 'u jsval)" where
  "view_context st opts = res_locals st ++ opts"

text \<open>
  What one handler does with the request: call \<^verbatim>\<open>next()\<close>, end it with a response, or
  fail with an error (\<^verbatim>\<open>next(err)\<close> or an exception that Express catches).
\<close>

datatype 'u outcome =
    Next "'u state"
  | Done "'u state" "'u response"
  | Fail "'u state" string

subsection \<open>The handlers written in \<^verbatim>\<open>app.js\<close>\<close>

text \<open>
  Lines 68-74:
  \<^verbatim>\<open>res.locals.user = req.user || null;
  res.locals.success_msg = req.flash('success_msg');
  res.locals.error_msg = req.flash('error_msg');
  res.locals.error = req.flash('error');
  next();\<close>
\<close>

definition globals_state :: "'u state \<Rightarrow> 'u state" where
  "globals_state st =
     drain_into_locals ''error''
       (drain_into_locals ''error_msg''
          (drain_into_locals ''success_msg''
             (st\<lparr>res_locals := (res_locals st)(''user'' \<mapsto> js_or (req_user st) JNull)\<rparr>)))"

definition globals :: "'u state \<Rightarrow> 'u outcome" where
  "globals st = Next (globals_state st)"

text \<open>
  Lines 110-116:
  \<^verbatim>\<open>if (req.isAuthenticated()) { return next(); }
  req.flash('error_msg', 'Please log in to access this resource');
  res.redirect('/login');\<close>
\<close>

definition login_required_msg :: string where
  "login_required_msg = ''Please log in to access this resource''"

definition ensureAuthenticated :: "'u state \<Rightarrow> 'u outcome" where
  "ensureAuthenticated st =
     (if isAuthenticated st then Next st
      else Done (req_flash_push ''error_msg'' login_required_msg st) (Redirect ''/login''))"

text \<open>
  Lines 83-91:
  \<^verbatim>\<open>if (req.isAuthenticated()) { return res.redirect('/dashboard'); }
  res.render('auth/login', { title: ..., description: ... });\<close>
\<close>

definition login_options :: "string \<rightharpoonup> 'u jsval" where
  "login_options =
     [''title'' \<mapsto> JStr ''Secure B2B Escrow Platform'',
      ''description'' \<mapsto> JStr ''A secure platform for B2B transactions with escrow protection'']"

definition home :: "'u state \<Rightarrow> 'u outcome" where
  "home st =
     (if isAuthenticated st then Done st (Redirect ''/dashboard'')
      else Done st (Render 200 ''auth/login'' login_options))"

text \<open>
  Lines 94-107, the handler behind \<^verbatim>\<open>ensureAuthenticated\<close>:
  \<^verbatim>\<open>try { res.render('dashboard', { title: 'Dashboard', user: req.user }); }
  catch (error) {
    console.error(error);
    req.flash('error_msg', 'An error occurred while loading the dashboard');
    res.redirect('/');
  }\<close>
  The first argument is what the \<^verbatim>\<open>try\<close> block throws, if anything (\<open>None\<close>: the block runs
  to its end).
\<close>

definition dashboard_error_msg :: string where
  "dashboard_error_msg = ''An error occurred while loading the dashboard''"

definition dashboard_options :: "'u state \<Rightarrow> (string \<rightharpoonup> 'u jsval)" where
  "dashboard_options st = [''title'' \<mapsto> JStr ''Dashboard'', ''user'' \<mapsto> req_user st]"

definition dashboard :: "string option \<Rightarrow> 'u state \<Rightarrow> 'u outcome" where
  "dashboard thrown st =
     (case thrown of
        None \<Rightarrow> Done st (Render 200 ''dashboard'' (dashboard_options st))
      | Some e \<Rightarrow>
          Done (req_flash_push ''error_msg'' dashboard_error_msg
                  (st\<lparr>console_error := console_error st @ [e]\<rparr>))
               (Redirect ''/''))"

text \<open>
  Lines 119-125:
  \<^verbatim>\<open>res.status(404).render('error', { title: 'Page Not Found',
    message: 'The page you requested does not exist', statusCode: 404 });\<close>
\<close>

definition not_found_options :: "string \<rightharpoonup> 'u jsval" where
  "not_found_options =
     [''title'' \<mapsto> JStr ''Page Not Found'',
      ''message'' \<mapsto> JStr ''The page you requested does not exist'',
      ''statusCode'' \<mapsto> JNum 404]"

definition notFound :: "'u state \<Rightarrow> 'u outcome" where
  "notFound st = Done st (Render 404 ''error'' not_found_options)"

subsection \<open>Route matching\<close>

text \<open>
  Express compiles a route path with its defaults: matching ignores case and accepts one
  optional trailing slash (\<^verbatim>\<open>/dashboard\<close> is the expression
  \<^verbatim>\<open>^\/dashboard\/?$\<close>, \<^verbatim>\<open>/\<close> is \<^verbatim>\<open>^\/?$\<close>, both with flag \<open>i\<close>). A mount path of
  \<^verbatim>\<open>app.use\<close> matches as a prefix that ends at a slash or at the end of the path
  (\<^verbatim>\<open>^\/users\/?(?=\/|$)\<close>), and the mount path \<^verbatim>\<open>/\<close> matches every path.
\<close>

definition lower :: "char \<Rightarrow> char" where
  "lower c =
     (case map_of (zip ''ABCDEFGHIJKLMNOPQRSTUVWXYZ'' ''abcdefghijklmnopqrstuvwxyz'') c of
        None \<Rightarrow> c
      | Some d \<Rightarrow> d)"

definition route_match :: "string \<Rightarrow> string \<Rightarrow> bool" where
  "route_match pat p =
     (let q = map lower p; r = map lower pat
      in q = r \<or> (if r \<noteq> [] \<and> last r = CHR ''/'' then q = butlast r else q = r @ ''/''))"

definition mount_match :: "string \<Rightarrow> string \<Rightarrow> bool" where
  "mount_match m p =
     (m = ''/'' \<or>
      (let q = map lower p; r = map lower m
       in q = r \<or> take (length r + 1) q = r @ ''/''))"

subsection \<open>The layers of the application\<close>

text \<open>
  One name for each function that \<^verbatim>\<open>app.js\<close> registers, in the order of the file:
  the library middleware of lines 37-65, the global-variables middleware, the four routers of
  the repository, the handlers of the two routes, the 404 handler and the error handler.
\<close>

datatype stage =
    Json | Urlencoded | MethodOverride | Cors | Morgan | Static
  | Session | PassportInitialize | PassportSession | Flash
  | Globals
  | AuthRoutes | UserRoutes | EscrowRoutes | PaymentRoutes
  | HomeHandler | EnsureAuthenticated | DashboardHandler
  | NotFound
  | ErrorHandler

text \<open>
  \<open>Use m s\<close> is \<^verbatim>\<open>app.use(m, s)\<close> (\<^verbatim>\<open>app.use(s)\<close> mounts at \<^verbatim>\<open>/\<close>),
  \<open>Get p hs\<close> is \<^verbatim>\<open>app.get(p, ...hs)\<close>, \<open>UseError s\<close> is \<^verbatim>\<open>app.use\<close> of an
  error-handling middleware (four parameters), which Express calls only for a failed request.
\<close>

datatype layer =
    Use string stage
  | Get string "stage list"
  | UseError stage

definition app_stack :: "layer list" where
  "app_stack =
     [Use ''/'' Json,
      Use ''/'' Urlencoded,
      Use ''/'' MethodOverride,
      Use ''/'' Cors,
      Use ''/'' Morgan,
      Use ''/'' Static,
      Use ''/'' Session,
      Use ''/'' PassportInitialize,
      Use ''/'' PassportSession,
      Use ''/'' Flash,
      Use ''/'' Globals,
      Use ''/'' AuthRoutes,
      Use ''/users'' UserRoutes,
      Use ''/escrow'' EscrowRoutes,
      Use ''/payments'' PaymentRoutes,
      Get ''/'' [HomeHandler],
      Get ''/dashboard'' [EnsureAuthenticated, DashboardHandler],
      Use ''/'' NotFound,
      UseError ErrorHandler]"

subsection \<open>Layers that are not part of \<^verbatim>\<open>app.js\<close>\<close>

text \<open>
  A library middleware or a router of the repository either passes the request on
  (\<open>Forward\<close>), answers it (\<open>Respond\<close>, with the state it leaves) or fails (\<open>Raise\<close>).
  A layer that passes the request on leaves the fields of the state as they are: what the
  session, passport and flash layers establish is the state the pipeline starts from.
  \<^item> \<open>ext\<close>: the behaviour of each such layer;
  \<^item> \<open>on_error\<close>: \<^verbatim>\<open>./middleware/errorHandler\<close>, given the error;
  \<^item> \<open>dashboard_throws\<close>: what the \<^verbatim>\<open>try\<close> block of the dashboard handler throws.
  The error handler is called through \<open>on_error\<close> only: a request that has not failed
  never enters an error-handling layer.
\<close>

datatype 'u ext_result =
    Forward
  | Respond "'u state" "'u response"
  | Raise string

record 'u env =
  ext :: "stage \<Rightarrow> 'u state \<Rightarrow> 'u ext_result"
  on_error :: "string \<Rightarrow> 'u state \<Rightarrow> 'u ext_result"
  dashboard_throws :: "'u state \<Rightarrow> string option"

definition external :: "'u env \<Rightarrow> stage \<Rightarrow> 'u state \<Rightarrow> 'u outcome" where
  "external env s st =
     (case ext env s st of
        Forward \<Rightarrow> Next st
      | Respond st' r \<Rightarrow> Done st' r
      | Raise e \<Rightarrow> Fail st e)"

fun step :: "'u env \<Rightarrow> stage \<Rightarrow> 'u state \<Rightarrow> 'u outcome" where
  "step env Globals st = globals st"
| "step env HomeHandler st = home st"
| "step env EnsureAuthenticated st = ensureAuthenticated st"
| "step env DashboardHandler st = dashboard (dashboard_throws env st) st"
| "step env NotFound st = notFound st"
| "step env s st = external env s st"

subsection \<open>Dispatch\<close>

text \<open>
  The handlers of one layer run in order; each runs only when the one before it called
  \<^verbatim>\<open>next()\<close>. The list of stages that ran is kept beside the result.
\<close>

fun run_handlers ::
  "'u env \<Rightarrow> stage list \<Rightarrow> 'u state \<Rightarrow> stage list \<Rightarrow> stage list \<times> 'u outcome" where
  "run_handlers env [] st tr = (tr, Next st)"
| "run_handlers env (h # hs) st tr =
     (case step env h st of
        Next st' \<Rightarrow> run_handlers env hs st' (tr @ [h])
      | Done st' r \<Rightarrow> (tr @ [h], Done st' r)
      | Fail st' e \<Rightarrow> (tr @ [h], Fail st' e))"

fun handlers :: "layer \<Rightarrow> stage list" where
  "handlers (Use m s) = [s]"
| "handlers (Get p hs) = hs"
| "handlers (UseError s) = [s]"

fun is_error_layer :: "layer \<Rightarrow> bool" where
  "is_error_layer (UseError s) = True"
| "is_error_layer l = False"

text \<open>A \<^verbatim>\<open>get\<close> route also serves HEAD when it has no handler for HEAD of its own.\<close>

fun matches :: "layer \<Rightarrow> 'u state \<Rightarrow> bool" where
  "matches (Use m s) st = mount_match m (req_path st)"
| "matches (Get p hs) st =
     ((req_method st = GET \<or> req_method st = HEAD) \<and> route_match p (req_path st))"
| "matches (UseError s) st = True"

text \<open>
  How a request ends: with a response; with no layer left (\<open>Unhandled\<close>, Express answers
  404 by itself); or with an error that no error handler answered (\<open>Uncaught\<close>, Express
  answers 500 by itself).
\<close>

datatype 'u result =
    Responded "'u response"
  | Unhandled
  | Uncaught string

text \<open>
  A failed request skips every ordinary layer and goes to the error-handling layers, in
  order. An error handler that passes the error on, or fails itself, leaves the request to
  the next error handler.
\<close>

fun run_err ::
  "'u env \<Rightarrow> string \<Rightarrow> layer list \<Rightarrow> 'u state \<Rightarrow> stage list
     \<Rightarrow> stage list \<times> 'u state \<times> 'u result" where
  "run_err env e [] st tr = (tr, st, Uncaught e)"
| "run_err env e (l # ls) st tr =
     (if is_error_layer l
      then (case on_error env e st of
              Forward \<Rightarrow> run_err env e ls st (tr @ handlers l)
            | Respond st' r \<Rightarrow> (tr @ handlers l, st', Responded r)
            | Raise e' \<Rightarrow> run_err env e' ls st (tr @ handlers l))
      else run_err env e ls st tr)"

text \<open>
  A request that has not failed goes down the stack: an error-handling layer and a layer
  whose path or method does not match are skipped, a matching layer runs its handlers.
\<close>

fun run ::
  "'u env \<Rightarrow> layer list \<Rightarrow> 'u state \<Rightarrow> stage list \<Rightarrow> stage list \<times> 'u state \<times> 'u result" where
  "run env [] st tr = (tr, st, Unhandled)"
| "run env (l # ls) st tr =
     (if is_error_layer l \<or> \<not> matches l st then run env ls st tr
      else (case run_handlers env (handlers l) st tr of
              (tr', Next st') \<Rightarrow> run env ls st' tr'
            | (tr', Done st' r) \<Rightarrow> (tr', st', Responded r)
            | (tr', Fail st' e) \<Rightarrow> run_err env e ls st' tr'))"

definition serve :: "'u env \<Rightarrow> 'u state \<Rightarrow> stage list \<times> 'u state \<times> 'u result" where
  "serve env st = run env app_stack st []"

subsection \<open>Configuration read at startup\<close>

text \<open>
  \<^verbatim>\<open>process.env\<close> is a map from names to strings; a name that is not set reads as
  \<^verbatim>\<open>undefined\<close>. Line 46: \<^verbatim>\<open>process.env.SESSION_SECRET || 'your_fallback_session_secret'\<close>;
  line 131: \<^verbatim>\<open>process.env.PORT || 3000\<close>.
\<close>

definition getenv :: "(string \<rightharpoonup> string) \<Rightarrow> string \<Rightarrow> 'u jsval" where
  "getenv penv k = (case penv k of None \<Rightarrow> JUndefined | Some v \<Rightarrow> JStr v)"

definition session_secret :: "(string \<rightharpoonup> string) \<Rightarrow> 'u jsval" where
  "session_secret penv =
     js_or (getenv penv ''SESSION_SECRET'') (JStr ''your_fallback_session_secret'')"

definition listen_port :: "(string \<rightharpoonup> string) \<Rightarrow> 'u jsval" where
  "listen_port penv = js_or (getenv penv ''PORT'') (JNum 3000)"

subsection \<open>Vocabulary of the properties\<close>

text \<open>The layers registered before the one that holds stage \<open>s\<close>.\<close>

definition upstream_of :: "stage \<Rightarrow> layer list" where
  "upstream_of s = takeWhile (\<lambda>l. s \<notin> set (handlers l)) app_stack"

text \<open>What is left of a trace behind the first occurrence of a stage.\<close>

fun after :: "'a \<Rightarrow> 'a list \<Rightarrow> 'a list" where
  "after a [] = []"
| "after a (x # xs) = (if x = a then xs else after a xs)"

text \<open>
  The stages that the route dispatcher reaches: the four routers, the handlers of the two
  routes and the 404 handler.
\<close>

fun downstream :: "stage \<Rightarrow> bool" where
  "downstream AuthRoutes = True"
| "downstream UserRoutes = True"
| "downstream EscrowRoutes = True"
| "downstream PaymentRoutes = True"
| "downstream HomeHandler = True"
| "downstream EnsureAuthenticated = True"
| "downstream DashboardHandler = True"
| "downstream NotFound = True"
| "downstream s = False"



text \<open>The stages of a stack, and those of its error-handling layers.\<close>

definition stages_of :: "layer list \<Rightarrow> stage set" where
  "stages_of ls = (\<Union>l \<in> set ls. set (handlers l))"

definition error_stages :: "layer list \<Rightarrow> stage set" where
  "error_stages ls = {s. UseError s \<in> set ls}"

fun responded :: "'u result \<Rightarrow> bool" where
  "responded (Responded r) = True"
| "responded r = False"

text \<open>Going on with further layers from where a run over the first layers stopped.\<close>

fun continue ::
  "'u env \<Rightarrow> layer list \<Rightarrow> stage list \<times> 'u state \<times> 'u result
     \<Rightarrow> stage list \<times> 'u state \<times> 'u result" where
  "continue env ls (tr, st, Unhandled) = run env ls st tr"
| "continue env ls (tr, st, Uncaught e) = run_err env e ls st tr"
| "continue env ls (tr, st, Responded r) = (tr, st, Responded r)"

text \<open>
  The stack in two parts: the layers mounted on every path up to the global-variables
  middleware, and the layers behind it.
\<close>

definition unconditional :: "stage list" where
  "unconditional =
     [Json, Urlencoded, MethodOverride, Cors, Morgan, Static, Session,
      PassportInitialize, PassportSession, Flash, Globals]"

definition routed :: "layer list" where
  "routed =
     [Use ''/'' AuthRoutes, Use ''/users'' UserRoutes, Use ''/escrow'' EscrowRoutes,
      Use ''/payments'' PaymentRoutes, Get ''/'' [HomeHandler],
      Get ''/dashboard'' [EnsureAuthenticated, DashboardHandler],
      Use ''/'' NotFound, UseError ErrorHandler]"

subsection \<open>Concrete requests and environments\<close>

text \<open>
  A request as the pipeline receives it: nothing in \<^verbatim>\<open>res.locals\<close> yet, nothing logged.
\<close>

definition request ::
  "http_method \<Rightarrow> string \<Rightarrow> 'u jsval \<Rightarrow> (string \<rightharpoonup> string list) \<Rightarrow> 'u state" where
  "request m p u f =
     \<lparr>req_method = m, req_path = p, req_user = u, session_flash = f,
      res_locals = Map.empty, console_error = []\<rparr>"

text \<open>
  An environment in which every library layer and router passes the request on and the
  dashboard renders, and one in which the \<^verbatim>\<open>try\<close> block of the dashboard throws.
\<close>

definition quiet_env :: "nat env" where
  "quiet_env =
     \<lparr>ext = (\<lambda>s st. Forward),
      on_error = (\<lambda>e st. Respond st (Sent 500)),
      dashboard_throws = (\<lambda>st. None)\<rparr>"

definition failing_env :: "nat env" where
  "failing_env = quiet_env\<lparr>dashboard_throws := (\<lambda>st. Some ''boom'')\<rparr>"

section \<open>Properties\<close>

subsection \<open>The flash store and the global-variables middleware\<close>

lemma flash_take_twice: "fst (flash_take k (snd (flash_take k f))) = []"
  by (simp add: flash_take_def queued_def)

lemma globals_state_flash:
  "session_flash (globals_state st) =
     (session_flash st)(''success_msg'' := None, ''error_msg'' := None, ''error'' := None)"
  by (simp add: globals_state_def drain_into_locals_def flash_take_def)

lemma globals_state_locals:
  "res_locals (globals_state st) =
     (res_locals st)
       (''user'' \<mapsto> js_or (req_user st) JNull,
        ''success_msg'' \<mapsto> JList (queued (session_flash st) ''success_msg''),
        ''error_msg'' \<mapsto> JList (queued (session_flash st) ''error_msg''),
        ''error'' \<mapsto> JList (queued (session_flash st) ''error''))"
  by (simp add: globals_state_def drain_into_locals_def flash_take_def queued_def)

lemma globals_state_req:
  "req_user (globals_state st) = req_user st"
  "req_path (globals_state st) = req_path st"
  "req_method (globals_state st) = req_method st"
  "console_error (globals_state st) = console_error st"
  by (simp_all add: globals_state_def drain_into_locals_def flash_take_def)

lemma isAuthenticated_globals: "isAuthenticated (globals_state st) = isAuthenticated st"
  by (simp add: isAuthenticated_def globals_state_req)

subsection \<open>Single handlers and handler chains\<close>

lemma step_Next:
  "step env s st = Next st' \<Longrightarrow> st' = (if s = Globals then globals_state st else st)"
  by (cases s)
     (auto simp: external_def globals_def home_def ensureAuthenticated_def dashboard_def
        notFound_def split: ext_result.splits if_splits option.splits)

lemma run_handlers_trace:
  "run_handlers env hs st tr = (tr', oc) \<Longrightarrow>
     \<exists>xs. tr' = tr @ xs \<and> set xs \<subseteq> set hs"
proof (induction hs arbitrary: st tr)
  case Nil
  then show ?case by simp
next
  case (Cons h hs)
  show ?case
  proof (cases "step env h st")
    case (Next st1)
    with Cons.prems have "run_handlers env hs st1 (tr @ [h]) = (tr', oc)" by simp
    from Cons.IH[OF this] obtain xs where "tr' = (tr @ [h]) @ xs" "set xs \<subseteq> set hs" by blast
    then have "tr' = tr @ (h # xs) \<and> set (h # xs) \<subseteq> set (h # hs)" by auto
    then show ?thesis by blast
  next
    case (Done st1 r)
    with Cons.prems have "tr' = tr @ [h]" by simp
    then have "tr' = tr @ [h] \<and> set [h] \<subseteq> set (h # hs)" by simp
    then show ?thesis by blast
  next
    case (Fail st1 e)
    with Cons.prems have "tr' = tr @ [h]" by simp
    then have "tr' = tr @ [h] \<and> set [h] \<subseteq> set (h # hs)" by simp
    then show ?thesis by blast
  qed
qed

lemma run_handlers_ended:
  "run_handlers env hs st tr = (tr', oc) \<Longrightarrow> (\<forall>s. oc \<noteq> Next s) \<Longrightarrow>
     \<exists>xs h. tr' = tr @ xs @ [h] \<and> set xs \<subseteq> set hs \<and> h \<in> set hs \<and> 
        (\<exists>s. step env h s = oc)"
proof (induction hs arbitrary: st tr)
  case Nil
  then show ?case by auto
next
  case (Cons h hs)
  show ?case
  proof (cases "step env h st")
    case (Next st1)
    with Cons.prems have "run_handlers env hs st1 (tr @ [h]) = (tr', oc)" by simp
    from Cons.IH[OF this Cons.prems(2)] obtain xs k where
      "tr' = (tr @ [h]) @ xs @ [k]" "set xs \<subseteq> set hs" "k \<in> set hs" "\<exists>s. step env k s = oc" by blast
    then have "tr' = tr @ (h # xs) @ [k] \<and> set (h # xs) \<subseteq> set (h # hs) \<and> k \<in> set (h # hs) \<and> (\<exists>s. step env k s = oc)" by auto
    then show ?thesis by blast
  next
    case (Done st1 r)
    with Cons.prems have "tr' = tr @ [] @ [h] \<and> set [] \<subseteq> set (h # hs) \<and> h \<in> set (h # hs) \<and> (\<exists>s. step env h s = oc)" by auto
    then show ?thesis by blast
  next
    case (Fail st1 e)
    with Cons.prems have "tr' = tr @ [] @ [h] \<and> set [] \<subseteq> set (h # hs) \<and> h \<in> set (h # hs) \<and> (\<exists>s. step env h s = oc)" by auto
    then show ?thesis by blast
  qed
qed

lemma run_handlers_Next_same:
  "run_handlers env hs st tr = (tr', Next st') \<Longrightarrow> Globals \<notin> set hs \<Longrightarrow> st' = st"
proof (induction hs arbitrary: st tr)
  case Nil
  then show ?case by simp
next
  case (Cons h hs)
  show ?case
  proof (cases "step env h st")
    case (Next s1)
    with Cons.prems have "run_handlers env hs s1 (tr @ [h]) = (tr', Next st')" by simp
    from Cons.IH[OF this] Cons.prems(2) have "st' = s1" by simp
    moreover from step_Next[OF Next] Cons.prems(2) have "s1 = st" by auto
    ultimately show ?thesis by simp
  next
    case (Done s1 r)
    with Cons.prems show ?thesis by simp
  next
    case (Fail s1 e)
    with Cons.prems show ?thesis by simp
  qed
qed

subsection \<open>Traces of a run\<close>

lemma error_layer_handlers: "is_error_layer l \<Longrightarrow> \<exists>s. l = UseError s \<and> handlers l = [s]"
  by (cases l) simp_all

lemma run_err_trace:
  "run_err env e ls st tr = (tr', st', r) \<Longrightarrow>
     \<exists>xs. tr' = tr @ xs \<and> set xs \<subseteq> error_stages ls \<and> r \<noteq> Unhandled
        \<and> (responded r \<longrightarrow> xs \<noteq> [])"
proof (induction ls arbitrary: e st tr)
  case Nil
  then show ?case by auto
next
  case (Cons l ls)
  show ?case
  proof (cases "is_error_layer l")
    case False
    with Cons.prems have "run_err env e ls st tr = (tr', st', r)" by simp
    from Cons.IH[OF this] show ?thesis by (auto simp: error_stages_def)
  next
    case True
    from error_layer_handlers[OF True] obtain s where l: "l = UseError s" "handlers l = [s]"
      by blast
    show ?thesis
    proof (cases "on_error env e st")
      case Forward
      with True l Cons.prems have "run_err env e ls st (tr @ [s]) = (tr', st', r)" by simp
      from Cons.IH[OF this] obtain xs where
        "tr' = (tr @ [s]) @ xs" "set xs \<subseteq> error_stages ls" "r \<noteq> Unhandled" by blast
      then have "tr' = tr @ (s # xs) \<and> set (s # xs) \<subseteq> error_stages (l # ls)
          \<and> r \<noteq> Unhandled \<and> (responded r \<longrightarrow> s # xs \<noteq> [])"
        by (auto simp: error_stages_def l)
      then show ?thesis by blast
    next
      case (Respond st1 r1)
      with True l Cons.prems have "tr' = tr @ [s] \<and> set [s] \<subseteq> error_stages (l # ls)
          \<and> r \<noteq> Unhandled \<and> (responded r \<longrightarrow> [s] \<noteq> [])"
        by (auto simp: error_stages_def)
      then show ?thesis by blast
    next
      case (Raise e1)
      with True l Cons.prems have "run_err env e1 ls st (tr @ [s]) = (tr', st', r)" by simp
      from Cons.IH[OF this] obtain xs where
        "tr' = (tr @ [s]) @ xs" "set xs \<subseteq> error_stages ls" "r \<noteq> Unhandled" by blast
      then have "tr' = tr @ (s # xs) \<and> set (s # xs) \<subseteq> error_stages (l # ls)
          \<and> r \<noteq> Unhandled \<and> (responded r \<longrightarrow> s # xs \<noteq> [])"
        by (auto simp: error_stages_def l)
      then show ?thesis by blast
    qed
  qed
qed

lemma error_stages_subset: "error_stages ls \<subseteq> stages_of ls"
  by (force simp: error_stages_def stages_of_def)

lemma stages_of_Cons: "stages_of (l # ls) = set (handlers l) \<union> stages_of ls"
  by (simp add: stages_of_def)

lemma run_trace:
  "run env ls st tr = (tr', st', r) \<Longrightarrow>
     \<exists>xs. tr' = tr @ xs \<and> set xs \<subseteq> stages_of ls \<and> (responded r \<longrightarrow> xs \<noteq> [])"
proof (induction ls arbitrary: st tr)
  case Nil
  then show ?case by auto
next
  case (Cons l ls)
  show ?case
  proof (cases "is_error_layer l \<or> \<not> matches l st")
    case True
    with Cons.prems have "run env ls st tr = (tr', st', r)" by simp
    from Cons.IH[OF this] show ?thesis by (auto simp: stages_of_Cons)
  next
    case False
    obtain t1 oc where rh: "run_handlers env (handlers l) st tr = (t1, oc)"
      by (cases "run_handlers env (handlers l) st tr")
    from run_handlers_trace[OF rh] obtain ys where
      ys: "t1 = tr @ ys" "set ys \<subseteq> set (handlers l)" by blast
    show ?thesis
    proof (cases oc)
      case (Next s1)
      with False rh Cons.prems have "run env ls s1 t1 = (tr', st', r)" by simp
      from Cons.IH[OF this] obtain xs where
        "tr' = t1 @ xs" "set xs \<subseteq> stages_of ls" "responded r \<longrightarrow> xs \<noteq> []" by blast
      with ys have "tr' = tr @ (ys @ xs) \<and> set (ys @ xs) \<subseteq> stages_of (l # ls)
          \<and> (responded r \<longrightarrow> ys @ xs \<noteq> [])"
        by (auto simp: stages_of_Cons)
      then show ?thesis by blast
    next
      case (Done s1 r1)
      from run_handlers_ended[OF rh] Done obtain zs h where
        "t1 = tr @ zs @ [h]" "set zs \<subseteq> set (handlers l)" "h \<in> set (handlers l)" by auto
      moreover from False rh Cons.prems Done have "tr' = t1" by simp
      ultimately have "tr' = tr @ (zs @ [h]) \<and> set (zs @ [h]) \<subseteq> stages_of (l # ls)
          \<and> (responded r \<longrightarrow> zs @ [h] \<noteq> [])"
        by (auto simp: stages_of_Cons)
      then show ?thesis by blast
    next
      case (Fail s1 e)
      with False rh Cons.prems have "run_err env e ls s1 t1 = (tr', st', r)" by simp
      from run_err_trace[OF this] obtain xs where
        "tr' = t1 @ xs" "set xs \<subseteq> error_stages ls" "responded r \<longrightarrow> xs \<noteq> []" by blast
      with ys error_stages_subset[of ls] have "tr' = tr @ (ys @ xs) \<and> set (ys @ xs) \<subseteq> stages_of (l # ls)
          \<and> (responded r \<longrightarrow> ys @ xs \<noteq> [])"
        by (auto simp: stages_of_Cons)
      then show ?thesis by blast
    qed
  qed
qed

lemma run_err_not_Unhandled: "run_err env e ls st tr \<noteq> (tr', st', Unhandled)"
  using run_err_trace[of env e ls st tr tr' st' Unhandled] by blast

subsection \<open>A run over a stack in two parts\<close>

lemma run_err_append:
  "run_err env e (xs @ ys) st tr = continue env ys (run_err env e xs st tr)"
proof (induction xs arbitrary: e st tr)
  case Nil
  then show ?case by simp
next
  case (Cons l ls)
  then show ?case
    by (cases "on_error env e st") simp_all
qed

lemma run_append:
  "run env (xs @ ys) st tr = continue env ys (run env xs st tr)"
proof (induction xs arbitrary: st tr)
  case Nil
  then show ?case by simp
next
  case (Cons l ls)
  show ?case
  proof (cases "is_error_layer l \<or> \<not> matches l st")
    case True
    then show ?thesis using Cons.IH by simp
  next
    case False
    obtain t1 oc where rh: "run_handlers env (handlers l) st tr = (t1, oc)"
      by (cases "run_handlers env (handlers l) st tr")
    show ?thesis
      using False rh Cons.IH by (cases oc) (simp_all add: run_err_append)
  qed
qed

lemma continue_Unhandled:
  "continue env ys x = (tr, st, Unhandled) \<Longrightarrow>
     \<exists>t s. x = (t, s, Unhandled) \<and> run env ys s t = (tr, st, Unhandled)"
proof -
  assume a: "continue env ys x = (tr, st, Unhandled)"
  obtain t s r where x: "x = (t, s, r)" by (cases x)
  show ?thesis
  proof (cases r)
    case (Responded r1)
    with a x show ?thesis by simp
  next
    case Unhandled
    with a x show ?thesis by simp
  next
    case (Uncaught e)
    with a x show ?thesis by (simp add: run_err_not_Unhandled)
  qed
qed

subsection \<open>The state that reaches a layer\<close>

lemma run_Unhandled_same:
  "run env ls st tr = (tr', st', Unhandled) \<Longrightarrow> Globals \<notin> stages_of ls \<Longrightarrow> st' = st"
proof (induction ls arbitrary: st tr)
  case Nil
  then show ?case by simp
next
  case (Cons l ls)
  from Cons.prems(2) have g: "Globals \<notin> set (handlers l)" "Globals \<notin> stages_of ls"
    by (simp_all add: stages_of_Cons)
  show ?case
  proof (cases "is_error_layer l \<or> \<not> matches l st")
    case True
    with Cons.prems have "run env ls st tr = (tr', st', Unhandled)" by simp
    from Cons.IH[OF this g(2)] show ?thesis .
  next
    case False
    obtain t1 oc where rh: "run_handlers env (handlers l) st tr = (t1, oc)"
      by (cases "run_handlers env (handlers l) st tr")
    show ?thesis
    proof (cases oc)
      case (Next s1)
      with False rh Cons.prems have "run env ls s1 t1 = (tr', st', Unhandled)" by simp
      from Cons.IH[OF this g(2)] have "st' = s1" .
      moreover from run_handlers_Next_same[OF rh[unfolded Next] g(1)] have "s1 = st" .
      ultimately show ?thesis by simp
    next
      case (Done s1 r1)
      with False rh Cons.prems show ?thesis by simp
    next
      case (Fail s1 e)
      with False rh Cons.prems have "run_err env e ls s1 t1 = (tr', st', Unhandled)" by simp
      then show ?thesis by (simp add: run_err_not_Unhandled)
    qed
  qed
qed

lemma mount_root: "mount_match ''/'' p"
  by (simp add: mount_match_def)

lemma run_Use_Globals:
  "run env (Use ''/'' Globals # ls) st tr = run env ls (globals_state st) (tr @ [Globals])"
  by (simp add: mount_root globals_def)

lemma through_globals:
  assumes "run env (xs @ Use ''/'' Globals # ys) st0 tr0 = (tr, st, Unhandled)"
    and "Globals \<notin> stages_of xs" and "Globals \<notin> stages_of ys"
  shows "st = globals_state st0"
proof -
  from assms(1) have "continue env (Use ''/'' Globals # ys) (run env xs st0 tr0) = (tr, st, Unhandled)"
    by (simp add: run_append)
  from continue_Unhandled[OF this] obtain t s where
    x: "run env xs st0 tr0 = (t, s, Unhandled)"
    and y: "run env (Use ''/'' Globals # ys) s t = (tr, st, Unhandled)" by blast
  from run_Unhandled_same[OF x assms(2)] have "s = st0" .
  moreover from y have "run env ys (globals_state s) (t @ [Globals]) = (tr, st, Unhandled)"
    by (simp only: run_Use_Globals)
  from run_Unhandled_same[OF this assms(3)] have "st = globals_state s" .
  ultimately show ?thesis by simp
qed

lemma upstream_of_home:
  "upstream_of HomeHandler =
     [Use ''/'' Json, Use ''/'' Urlencoded, Use ''/'' MethodOverride, Use ''/'' Cors,
      Use ''/'' Morgan, Use ''/'' Static, Use ''/'' Session, Use ''/'' PassportInitialize,
      Use ''/'' PassportSession, Use ''/'' Flash] @
     Use ''/'' Globals #
     [Use ''/'' AuthRoutes, Use ''/users'' UserRoutes, Use ''/escrow'' EscrowRoutes,
      Use ''/payments'' PaymentRoutes]"
  by (simp add: upstream_of_def app_stack_def)

lemma upstream_of_gate:
  "upstream_of EnsureAuthenticated = upstream_of HomeHandler @ [Get ''/'' [HomeHandler]]"
  by (simp add: upstream_of_def app_stack_def)

lemma upstream_of_not_found:
  "upstream_of NotFound =
     upstream_of EnsureAuthenticated @ [Get ''/dashboard'' [EnsureAuthenticated, DashboardHandler]]"
  by (simp add: upstream_of_def app_stack_def)

lemma app_stack_home:
  "app_stack = upstream_of HomeHandler @
     [Get ''/'' [HomeHandler], Get ''/dashboard'' [EnsureAuthenticated, DashboardHandler],
      Use ''/'' NotFound, UseError ErrorHandler]"
  by (simp add: upstream_of_def app_stack_def)

lemma app_stack_gate:
  "app_stack = upstream_of EnsureAuthenticated @
     [Get ''/dashboard'' [EnsureAuthenticated, DashboardHandler],
      Use ''/'' NotFound, UseError ErrorHandler]"
  by (simp add: upstream_of_def app_stack_def)

lemma app_stack_not_found:
  "app_stack = upstream_of NotFound @ [Use ''/'' NotFound, UseError ErrorHandler]"
  by (simp add: upstream_of_def app_stack_def)

lemma reach_home_state:
  assumes "run env (upstream_of HomeHandler) st0 [] = (tr, st, Unhandled)"
  shows "st = globals_state st0"
  by (rule through_globals[OF assms[unfolded upstream_of_home]])
     (simp_all add: stages_of_def)

lemma reach_gate_state:
  assumes "run env (upstream_of EnsureAuthenticated) st0 [] = (tr, st, Unhandled)"
  shows "st = globals_state st0"
proof -
  have "upstream_of EnsureAuthenticated = 
     [Use ''/'' Json, Use ''/'' Urlencoded, Use ''/'' MethodOverride, Use ''/'' Cors,
      Use ''/'' Morgan, Use ''/'' Static, Use ''/'' Session, Use ''/'' PassportInitialize,
      Use ''/'' PassportSession, Use ''/'' Flash] @
     Use ''/'' Globals #
     [Use ''/'' AuthRoutes, Use ''/users'' UserRoutes, Use ''/escrow'' EscrowRoutes,
      Use ''/payments'' PaymentRoutes, Get ''/'' [HomeHandler]]"
    by (simp add: upstream_of_gate upstream_of_home)
  from through_globals[OF assms[unfolded this]] show ?thesis
    by (simp add: stages_of_def)
qed

lemma reach_not_found_state:
  assumes "run env (upstream_of NotFound) st0 [] = (tr, st, Unhandled)"
  shows "st = globals_state st0"
proof -
  have "upstream_of NotFound = 
     [Use ''/'' Json, Use ''/'' Urlencoded, Use ''/'' MethodOverride, Use ''/'' Cors,
      Use ''/'' Morgan, Use ''/'' Static, Use ''/'' Session, Use ''/'' PassportInitialize,
      Use ''/'' PassportSession, Use ''/'' Flash] @
     Use ''/'' Globals #
     [Use ''/'' AuthRoutes, Use ''/users'' UserRoutes, Use ''/escrow'' EscrowRoutes,
      Use ''/payments'' PaymentRoutes, Get ''/'' [HomeHandler],
      Get ''/dashboard'' [EnsureAuthenticated, DashboardHandler]]"
    by (simp add: upstream_of_not_found upstream_of_gate upstream_of_home)
  from through_globals[OF assms[unfolded this]] show ?thesis
    by (simp add: stages_of_def)
qed

subsection \<open>From the stack to the layer that answers\<close>

lemma matches_globals: "matches l (globals_state st) = matches l st"
  by (cases l) (simp_all add: globals_state_req)

lemma serve_from_home:
  assumes "run env (upstream_of HomeHandler) st0 [] = (tr, st, Unhandled)"
  shows "serve env st0 =
     run env [Get ''/'' [HomeHandler], Get ''/dashboard'' [EnsureAuthenticated, DashboardHandler],
              Use ''/'' NotFound, UseError ErrorHandler] (globals_state st0) tr"
proof -
  have "serve env st0 =
      continue env [Get ''/'' [HomeHandler],
                    Get ''/dashboard'' [EnsureAuthenticated, DashboardHandler],
                    Use ''/'' NotFound, UseError ErrorHandler]
        (run env (upstream_of HomeHandler) st0 [])"
    unfolding serve_def by (subst app_stack_home) (rule run_append)
  with assms reach_home_state[OF assms] show ?thesis by simp
qed

lemma serve_from_gate:
  assumes "run env (upstream_of EnsureAuthenticated) st0 [] = (tr, st, Unhandled)"
  shows "serve env st0 =
     run env [Get ''/dashboard'' [EnsureAuthenticated, DashboardHandler],
              Use ''/'' NotFound, UseError ErrorHandler] (globals_state st0) tr"
proof -
  have "serve env st0 =
      continue env [Get ''/dashboard'' [EnsureAuthenticated, DashboardHandler],
                    Use ''/'' NotFound, UseError ErrorHandler]
        (run env (upstream_of EnsureAuthenticated) st0 [])"
    unfolding serve_def by (subst app_stack_gate) (rule run_append)
  with assms reach_gate_state[OF assms] show ?thesis by simp
qed

lemma serve_from_not_found:
  assumes "run env (upstream_of NotFound) st0 [] = (tr, st, Unhandled)"
  shows "serve env st0 =
     run env [Use ''/'' NotFound, UseError ErrorHandler] (globals_state st0) tr"
proof -
  have "serve env st0 =
      continue env [Use ''/'' NotFound, UseError ErrorHandler]
        (run env (upstream_of NotFound) st0 [])"
    unfolding serve_def by (subst app_stack_not_found) (rule run_append)
  with assms reach_not_found_state[OF assms] show ?thesis by simp
qed

lemma serve_at_home:
  assumes reach: "run env (upstream_of HomeHandler) st0 [] = (tr, st, Unhandled)"
    and hit: "matches (Get ''/'' [HomeHandler]) st0"
  shows "serve env st0 =
           (tr @ [HomeHandler], globals_state st0,
            Responded (if isAuthenticated st0 then Redirect ''/dashboard''
                       else Render 200 ''auth/login'' login_options))"
proof -
  from hit have "matches (Get ''/'' [HomeHandler]) (globals_state st0)"
    by (simp only: matches_globals)
  then show ?thesis
    unfolding serve_from_home[OF reach] by (simp add: home_def isAuthenticated_globals)
qed

lemma serve_at_gate:
  assumes reach: "run env (upstream_of EnsureAuthenticated) st0 [] = (tr, st, Unhandled)"
    and hit: "matches (Get ''/dashboard'' [EnsureAuthenticated, DashboardHandler]) st0"
  shows "serve env st0 =
           (if isAuthenticated st0
            then (case dashboard (dashboard_throws env (globals_state st0)) (globals_state st0) of
                    Next s1 \<Rightarrow>
                      run env [Use ''/'' NotFound, UseError ErrorHandler] s1
                        (tr @ [EnsureAuthenticated, DashboardHandler])
                  | Done s1 r \<Rightarrow> (tr @ [EnsureAuthenticated, DashboardHandler], s1, Responded r)
                  | Fail s1 e \<Rightarrow>
                      run_err env e [Use ''/'' NotFound, UseError ErrorHandler] s1
                        (tr @ [EnsureAuthenticated, DashboardHandler]))
            else (tr @ [EnsureAuthenticated],
                  req_flash_push ''error_msg'' login_required_msg (globals_state st0),
                  Responded (Redirect ''/login'')))"
proof -
  from hit have
    m: "matches (Get ''/dashboard'' [EnsureAuthenticated, DashboardHandler]) (globals_state st0)"
    by (simp only: matches_globals)
  show ?thesis
  proof (cases "isAuthenticated st0")
    case True
    then have "ensureAuthenticated (globals_state st0) = Next (globals_state st0)"
      by (simp add: ensureAuthenticated_def isAuthenticated_globals)
    with True m show ?thesis
      unfolding serve_from_gate[OF reach]
      by (cases "dashboard (dashboard_throws env (globals_state st0)) (globals_state st0)")
         simp_all
  next
    case False
    then have "ensureAuthenticated (globals_state st0) =
        Done (req_flash_push ''error_msg'' login_required_msg (globals_state st0))
             (Redirect ''/login'')"
      by (simp add: ensureAuthenticated_def isAuthenticated_globals)
    with False m show ?thesis
      unfolding serve_from_gate[OF reach] by simp
  qed
qed

lemma serve_unmatched:
  assumes reach: "run env (upstream_of NotFound) st0 [] = (tr, st, Unhandled)"
  shows "serve env st0 =
           (tr @ [NotFound], globals_state st0,
            Responded (Render 404 ''error'' not_found_options))"
  unfolding serve_from_not_found[OF reach] by (simp add: mount_root notFound_def)

lemma flash_after_push:
  "session_flash (req_flash_push ''error_msg'' m (globals_state st)) =
     (session_flash st)(''success_msg'' := None, ''error'' := None, ''error_msg'' \<mapsto> [m])"
  by (auto simp: req_flash_push_def flash_push_def queued_def globals_state_flash)

lemma upstream_gate_stages:
  assumes "run env (upstream_of EnsureAuthenticated) st0 [] = (tr, st, Unhandled)"
  shows "DashboardHandler \<notin> set tr" and "ErrorHandler \<notin> set tr"
proof -
  from run_trace[OF assms] have "set tr \<subseteq> stages_of (upstream_of EnsureAuthenticated)"
    by auto
  moreover have "stages_of (upstream_of EnsureAuthenticated) =
     {Json, Urlencoded, MethodOverride, Cors, Morgan, Static, Session, PassportInitialize,
      PassportSession, Flash, Globals, AuthRoutes, UserRoutes, EscrowRoutes, PaymentRoutes,
      HomeHandler}"
    by (auto simp: upstream_of_gate upstream_of_home stages_of_def)
  ultimately show "DashboardHandler \<notin> set tr" and "ErrorHandler \<notin> set tr"
    by auto
qed

subsection \<open>Runs in which every external layer passes the request on\<close>

lemma forwarding_reach_home:
  assumes "ext env = (\<lambda>s st. Forward)"
    and "\<not> mount_match ''/users'' (req_path st0)"
    and "\<not> mount_match ''/escrow'' (req_path st0)"
    and "\<not> mount_match ''/payments'' (req_path st0)"
  shows "run env (upstream_of HomeHandler) st0 [] =
           ([Json, Urlencoded, MethodOverride, Cors, Morgan, Static, Session, PassportInitialize,
             PassportSession, Flash, Globals, AuthRoutes], globals_state st0, Unhandled)"
  unfolding upstream_of_home using assms
  by (simp add: mount_root external_def globals_def globals_state_req)

lemma request_fields:
  "req_method (request m p u f) = m"
  "req_path (request m p u f) = p"
  "req_user (request m p u f) = u"
  "session_flash (request m p u f) = f"
  "res_locals (request m p u f) = Map.empty"
  "console_error (request m p u f) = []"
  by (simp_all add: request_def)

lemma paths_checked:
  "\<not> mount_match ''/users'' ''/dashboard''"
  "\<not> mount_match ''/escrow'' ''/dashboard''"
  "\<not> mount_match ''/payments'' ''/dashboard''"
  "\<not> mount_match ''/users'' ''/''"
  "\<not> mount_match ''/escrow'' ''/''"
  "\<not> mount_match ''/payments'' ''/''"
  "\<not> mount_match ''/users'' ''/nope''"
  "\<not> mount_match ''/escrow'' ''/nope''"
  "\<not> mount_match ''/payments'' ''/nope''"
  "route_match ''/'' ''/''"
  "\<not> route_match ''/'' ''/dashboard''"
  "route_match ''/dashboard'' ''/dashboard''"
  "\<not> route_match ''/'' ''/nope''"
  "\<not> route_match ''/dashboard'' ''/nope''"
  by (simp_all add: mount_match_def route_match_def lower_def)

lemma forwarding_reach_gate:
  assumes "ext env = (\<lambda>s st. Forward)"
    and "\<not> mount_match ''/users'' (req_path st0)"
    and "\<not> mount_match ''/escrow'' (req_path st0)"
    and "\<not> mount_match ''/payments'' (req_path st0)"
    and "\<not> route_match ''/'' (req_path st0)"
  shows "run env (upstream_of EnsureAuthenticated) st0 [] =
           ([Json, Urlencoded, MethodOverride, Cors, Morgan, Static, Session, PassportInitialize,
             PassportSession, Flash, Globals, AuthRoutes], globals_state st0, Unhandled)"
  unfolding upstream_of_gate run_append forwarding_reach_home[OF assms(1-4)]
  using assms(5) by (simp add: globals_state_req)

lemma forwarding_reach_not_found:
  assumes "ext env = (\<lambda>s st. Forward)"
    and "\<not> mount_match ''/users'' (req_path st0)"
    and "\<not> mount_match ''/escrow'' (req_path st0)"
    and "\<not> mount_match ''/payments'' (req_path st0)"
    and "\<not> route_match ''/'' (req_path st0)"
    and "\<not> route_match ''/dashboard'' (req_path st0)"
  shows "run env (upstream_of NotFound) st0 [] =
           ([Json, Urlencoded, MethodOverride, Cors, Morgan, Static, Session, PassportInitialize,
             PassportSession, Flash, Globals, AuthRoutes], globals_state st0, Unhandled)"
  unfolding upstream_of_not_found run_append forwarding_reach_gate[OF assms(1-5)]
  using assms(6) by (simp add: globals_state_req)

lemma quiet_ext: "ext quiet_env = (\<lambda>s st. Forward)" "ext failing_env = (\<lambda>s st. Forward)"
  by (simp_all add: quiet_env_def failing_env_def)

subsection \<open>The unconditional layers come first\<close>

lemma app_stack_split: "app_stack = map (Use ''/'') unconditional @ routed"
  by (simp add: app_stack_def unconditional_def routed_def)

lemma run_unconditional:
  "run env (map (Use ''/'') ss) st tr = (tr', st', Unhandled) \<Longrightarrow> tr' = tr @ ss"
proof (induction ss arbitrary: st tr)
  case Nil
  then show ?case by simp
next
  case (Cons s ss)
  show ?case
  proof (cases "step env s st")
    case (Next s1)
    with Cons.prems have "run env (map (Use ''/'') ss) s1 (tr @ [s]) = (tr', st', Unhandled)"
      by (simp add: mount_root)
    from Cons.IH[OF this] show ?thesis by simp
  next
    case (Done s1 r)
    with Cons.prems show ?thesis by (simp add: mount_root)
  next
    case (Fail s1 e)
    with Cons.prems show ?thesis by (simp add: mount_root run_err_not_Unhandled)
  qed
qed

lemma stages_of_unconditional: "stages_of (map (Use ''/'') ss) = set ss"
  by (induction ss) (simp_all add: stages_of_def)

lemma error_stages_routed: "error_stages routed = {ErrorHandler}"
  by (auto simp: error_stages_def routed_def)

lemma after_skip: "a \<notin> set xs \<Longrightarrow> after a (xs @ a # ys) = ys"
  by (induction xs) auto

subsection \<open>What a render receives\<close>






section \<open>The claims\<close>

text \<open>
  In the statements below, \<open>run env (upstream_of s) st0 [] = (tr, st, Unhandled)\<close> says that
  the request \<open>st0\<close> reaches the layer of stage \<open>s\<close>: every layer registered before it was
  skipped or passed the request on, \<open>tr\<close> lists the stages that ran and \<open>st\<close> is the state
  they hand over. The categories of the notification queue are the keys of the flash store:
  "success" is \<^verbatim>\<open>success_msg\<close>, "error" is \<^verbatim>\<open>error_msg\<close> and "generic-error" is
  \<^verbatim>\<open>error\<close>.
\<close>

text \<open>
  C1. A request without identity that is dispatched to the dashboard route is answered by
  \<^verbatim>\<open>ensureAuthenticated\<close> with a redirect to \<^verbatim>\<open>/login\<close>; the dashboard handler does not
  run; and the queue of the session then holds, under \<^verbatim>\<open>error_msg\<close>, exactly the one
  message "Please log in to access this resource" (the global-variables middleware has
  emptied the three categories before the gate runs, every other key is as it was).
\<close>

theorem gate_redirects_anonymous:
  assumes reach: "run env (upstream_of EnsureAuthenticated) st0 [] = (tr, st, Unhandled)"
    and hit: "matches (Get ''/dashboard'' [EnsureAuthenticated, DashboardHandler]) st0"
    and anon: "\<not> isAuthenticated st0"
  shows "serve env st0 =
           (tr @ [EnsureAuthenticated],
            req_flash_push ''error_msg'' login_required_msg (globals_state st0),
            Responded (Redirect ''/login''))
       \<and> DashboardHandler \<notin> set (tr @ [EnsureAuthenticated])
       \<and> session_flash (req_flash_push ''error_msg'' login_required_msg (globals_state st0)) =
           (session_flash st0)
             (''success_msg'' := None, ''error'' := None,
              ''error_msg'' \<mapsto> [''Please log in to access this resource''])"
proof -
  have "serve env st0 =
           (tr @ [EnsureAuthenticated],
            req_flash_push ''error_msg'' login_required_msg (globals_state st0),
            Responded (Redirect ''/login''))"
    using serve_at_gate[OF reach hit] anon by simp
  moreover have "DashboardHandler \<notin> set (tr @ [EnsureAuthenticated])"
    using upstream_gate_stages(1)[OF reach] by simp
  moreover note flash_after_push[of login_required_msg st0]
  ultimately show ?thesis by (simp add: login_required_msg_def)
qed

theorem gate_redirects_anonymous_witness:
  "\<not> isAuthenticated (request GET ''/dashboard'' (JUndefined :: nat jsval) [''error_msg'' \<mapsto> [''stale'']])
   \<and> fst (serve quiet_env (request GET ''/dashboard'' JUndefined [''error_msg'' \<mapsto> [''stale'']])) =
       [Json, Urlencoded, MethodOverride, Cors, Morgan, Static, Session, PassportInitialize,
        PassportSession, Flash, Globals, AuthRoutes, EnsureAuthenticated]
   \<and> snd (snd (serve quiet_env
         (request GET ''/dashboard'' JUndefined [''error_msg'' \<mapsto> [''stale'']]))) =
       Responded (Redirect ''/login'')
   \<and> session_flash (fst (snd (serve quiet_env
         (request GET ''/dashboard'' JUndefined [''error_msg'' \<mapsto> [''stale'']])))) ''error_msg'' =
       Some [''Please log in to access this resource'']"
proof -
  let ?r = "request GET ''/dashboard'' (JUndefined :: nat jsval) [''error_msg'' \<mapsto> [''stale'']]"
  have reach: "run quiet_env (upstream_of EnsureAuthenticated) ?r [] =
           ([Json, Urlencoded, MethodOverride, Cors, Morgan, Static, Session, PassportInitialize,
             PassportSession, Flash, Globals, AuthRoutes], globals_state ?r, Unhandled)"
    by (rule forwarding_reach_gate) (simp_all add: quiet_ext request_fields paths_checked)
  have hit: "matches (Get ''/dashboard'' [EnsureAuthenticated, DashboardHandler]) ?r"
    by (simp add: request_fields paths_checked)
  have anon: "\<not> isAuthenticated ?r"
    by (simp add: isAuthenticated_def request_fields)
  from gate_redirects_anonymous[OF reach hit anon] anon show ?thesis
    by (simp add: request_fields)
qed

text \<open>
  C2. For a request with an identity that is dispatched to the dashboard route,
  \<^verbatim>\<open>ensureAuthenticated\<close> calls \<^verbatim>\<open>next()\<close> on the state it received, unchanged (session,
  queue and everything else), and the dashboard handler runs on that state: the response of
  the request is the response of the handler, not a redirect of the gate.
\<close>

theorem gate_admits_identity:
  assumes reach: "run env (upstream_of EnsureAuthenticated) st0 [] = (tr, st, Unhandled)"
    and hit: "matches (Get ''/dashboard'' [EnsureAuthenticated, DashboardHandler]) st0"
    and auth: "isAuthenticated st0"
    and handler: "step env DashboardHandler st = Done st' r"
  shows "step env EnsureAuthenticated st = Next st
       \<and> serve env st0 = (tr @ [EnsureAuthenticated, DashboardHandler], st', Responded r)"
proof -
  note st = reach_gate_state[OF reach]
  from auth have "step env EnsureAuthenticated st = Next st"
    by (simp add: st ensureAuthenticated_def isAuthenticated_globals)
  moreover from handler have
    "dashboard (dashboard_throws env (globals_state st0)) (globals_state st0) = Done st' r"
    by (simp add: st)
  with serve_at_gate[OF reach hit] auth have
    "serve env st0 = (tr @ [EnsureAuthenticated, DashboardHandler], st', Responded r)"
    by simp
  ultimately show ?thesis by simp
qed

theorem gate_admits_identity_witness:
  "isAuthenticated (request GET ''/dashboard'' (JUser (7::nat)) [''info'' \<mapsto> [''kept'']])
   \<and> ensureAuthenticated (globals_state (request GET ''/dashboard'' (JUser (7::nat)) [''info'' \<mapsto> [''kept'']])) =
       Next (globals_state (request GET ''/dashboard'' (JUser (7::nat)) [''info'' \<mapsto> [''kept'']]))
   \<and> serve quiet_env (request GET ''/dashboard'' (JUser 7) [''info'' \<mapsto> [''kept'']]) =
       ([Json, Urlencoded, MethodOverride, Cors, Morgan, Static, Session, PassportInitialize,
         PassportSession, Flash, Globals, AuthRoutes, EnsureAuthenticated, DashboardHandler],
        globals_state (request GET ''/dashboard'' (JUser 7) [''info'' \<mapsto> [''kept'']]),
        Responded (Render 200 ''dashboard''
          (dashboard_options (globals_state
             (request GET ''/dashboard'' (JUser 7) [''info'' \<mapsto> [''kept'']])))))"
proof -
  let ?r = "request GET ''/dashboard'' (JUser (7::nat)) [''info'' \<mapsto> [''kept'']]"
  have reach: "run quiet_env (upstream_of EnsureAuthenticated) ?r [] =
           ([Json, Urlencoded, MethodOverride, Cors, Morgan, Static, Session, PassportInitialize,
             PassportSession, Flash, Globals, AuthRoutes], globals_state ?r, Unhandled)"
    by (rule forwarding_reach_gate) (simp_all add: quiet_ext request_fields paths_checked)
  have hit: "matches (Get ''/dashboard'' [EnsureAuthenticated, DashboardHandler]) ?r"
    by (simp add: request_fields paths_checked)
  have auth: "isAuthenticated ?r"
    by (simp add: isAuthenticated_def request_fields)
  have handler: "step quiet_env DashboardHandler (globals_state ?r) =
      Done (globals_state ?r) (Render 200 ''dashboard'' (dashboard_options (globals_state ?r)))"
    by (simp add: dashboard_def quiet_env_def)
  from gate_admits_identity[OF reach hit auth handler] auth show ?thesis
    by simp
qed

text \<open>
  C3. Draining a key of the flash store twice in a row gives the empty list the second
  time; and when a later request arrives with the flash store that the global-variables
  middleware left behind (nothing queued in between), that middleware puts the empty list
  under each of the three categories.
\<close>

theorem drain_exactly_once:
  assumes "session_flash st' = session_flash (globals_state st)"
  shows "fst (flash_take k (snd (flash_take k f))) = []
       \<and> res_locals (globals_state st') ''success_msg'' = Some (JList [])
       \<and> res_locals (globals_state st') ''error_msg'' = Some (JList [])
       \<and> res_locals (globals_state st') ''error'' = Some (JList [])"
  using assms
  by (simp add: flash_take_twice globals_state_locals globals_state_flash queued_def)

theorem drain_exactly_once_witness:
  "res_locals (globals_state (request GET ''/dashboard'' (JUndefined :: nat jsval)
       [''error_msg'' \<mapsto> [''stale'']])) ''error_msg'' = Some (JList [''stale''])
   \<and> res_locals (globals_state (request GET ''/'' (JUndefined :: nat jsval)
       (session_flash (globals_state (request GET ''/dashboard'' (JUndefined :: nat jsval)
          [''error_msg'' \<mapsto> [''stale'']]))))) ''error_msg'' = Some (JList [])
   \<and> fst (flash_take ''error_msg''
          (snd (flash_take ''error_msg'' [''error_msg'' \<mapsto> [''stale'']]))) = []"
proof -
  let ?a = "request GET ''/dashboard'' (JUndefined :: nat jsval) [''error_msg'' \<mapsto> [''stale'']]"
  let ?b = "request GET ''/'' (JUndefined :: nat jsval) (session_flash (globals_state ?a))"
  have "session_flash ?b = session_flash (globals_state ?a)" by (simp add: request_fields)
  from drain_exactly_once[OF this, of "''error_msg''" "[''error_msg'' \<mapsto> [''stale'']]"]
  show ?thesis
    by (simp add: globals_state_locals request_fields queued_def)
qed

text \<open>
  C4. A GET (or HEAD) request for the root path that reaches the home route is answered by
  the home handler: with an identity by a redirect to \<^verbatim>\<open>/dashboard\<close> and no render,
  without one by a render of \<^verbatim>\<open>auth/login\<close> whose context has the fixed \<^verbatim>\<open>title\<close> and
  \<^verbatim>\<open>description\<close>.
\<close>

theorem home_route:
  assumes reach: "run env (upstream_of HomeHandler) st0 [] = (tr, st, Unhandled)"
    and hit: "matches (Get ''/'' [HomeHandler]) st0"
  shows "serve env st0 =
           (tr @ [HomeHandler], globals_state st0,
            Responded (if isAuthenticated st0 then Redirect ''/dashboard''
                       else Render 200 ''auth/login'' login_options))
       \<and> view_context (globals_state st0) login_options ''title'' =
           Some (JStr ''Secure B2B Escrow Platform'')
       \<and> view_context (globals_state st0) login_options ''description'' =
           Some (JStr ''A secure platform for B2B transactions with escrow protection'')"
  using serve_at_home[OF reach hit]
  by (simp add: view_context_def login_options_def)

theorem home_route_witness:
  "serve quiet_env (request GET ''/'' JUndefined Map.empty) =
     ([Json, Urlencoded, MethodOverride, Cors, Morgan, Static, Session, PassportInitialize,
       PassportSession, Flash, Globals, AuthRoutes, HomeHandler],
      globals_state (request GET ''/'' JUndefined Map.empty),
      Responded (Render 200 ''auth/login'' login_options))
   \<and> serve quiet_env (request GET ''/'' (JUser 7) Map.empty) =
     ([Json, Urlencoded, MethodOverride, Cors, Morgan, Static, Session, PassportInitialize,
       PassportSession, Flash, Globals, AuthRoutes, HomeHandler],
      globals_state (request GET ''/'' (JUser 7) Map.empty),
      Responded (Redirect ''/dashboard''))"
proof -
  let ?a = "request GET ''/'' (JUndefined :: nat jsval) Map.empty"
  let ?b = "request GET ''/'' (JUser (7::nat)) Map.empty"
  have ra: "run quiet_env (upstream_of HomeHandler) ?a [] =
           ([Json, Urlencoded, MethodOverride, Cors, Morgan, Static, Session, PassportInitialize,
             PassportSession, Flash, Globals, AuthRoutes], globals_state ?a, Unhandled)"
    by (rule forwarding_reach_home) (simp_all add: quiet_ext request_fields paths_checked)
  have rb: "run quiet_env (upstream_of HomeHandler) ?b [] =
           ([Json, Urlencoded, MethodOverride, Cors, Morgan, Static, Session, PassportInitialize,
             PassportSession, Flash, Globals, AuthRoutes], globals_state ?b, Unhandled)"
    by (rule forwarding_reach_home) (simp_all add: quiet_ext request_fields paths_checked)
  have ha: "matches (Get ''/'' [HomeHandler]) ?a" and hb: "matches (Get ''/'' [HomeHandler]) ?b"
    by (simp_all add: request_fields paths_checked)
  from home_route[OF ra ha] home_route[OF rb hb] show ?thesis
    by (simp add: isAuthenticated_def request_fields)
qed



text \<open>
  C6. After the global-variables middleware, \<^verbatim>\<open>res.locals.user\<close> is \<^verbatim>\<open>req.user\<close> when
  the request has an identity and \<^verbatim>\<open>null\<close> otherwise; it is never \<^verbatim>\<open>undefined\<close> and never
  missing. The views of the login page and of the 404 page receive that value as
  \<^verbatim>\<open>user\<close>, and so does the dashboard view, which is rendered only with an identity. On a
  first visit (no identity, empty flash store) it is \<^verbatim>\<open>null\<close> and the notification lists
  (all three) are empty.
\<close>

theorem injected_identity:
  "res_locals (globals_state st) ''user'' =
     Some (if isAuthenticated st then req_user st else JNull)
   \<and> res_locals (globals_state st) ''user'' \<noteq> Some JUndefined
   \<and> res_locals (globals_state st) ''user'' \<noteq> None
   \<and> view_context (globals_state st) login_options ''user'' =
       Some (if isAuthenticated st then req_user st else JNull)
   \<and> view_context (globals_state st) not_found_options ''user'' =
       Some (if isAuthenticated st then req_user st else JNull)
   \<and> (isAuthenticated st \<longrightarrow>
        view_context (globals_state st) (dashboard_options (globals_state st)) ''user'' =
          Some (req_user st))
   \<and> (req_user st = JUndefined \<and> session_flash st = Map.empty \<longrightarrow>
        res_locals (globals_state st) ''user'' = Some JNull
      \<and> res_locals (globals_state st) ''success_msg'' = Some (JList [])
      \<and> res_locals (globals_state st) ''error_msg'' = Some (JList [])
      \<and> res_locals (globals_state st) ''error'' = Some (JList []))"
  by (auto simp: globals_state_locals globals_state_req js_or_def isAuthenticated_def queued_def
        view_context_def login_options_def not_found_options_def dashboard_options_def
        map_add_def)

theorem injected_identity_witness:
  "res_locals (globals_state (request GET ''/'' (JUndefined :: nat jsval) Map.empty)) ''user'' =
     Some JNull
   \<and> res_locals (globals_state (request GET ''/'' (JUndefined :: nat jsval) Map.empty))
       ''success_msg'' = Some (JList [])
   \<and> res_locals (globals_state (request GET ''/'' (JUndefined :: nat jsval) Map.empty))
       ''error_msg'' = Some (JList [])
   \<and> res_locals (globals_state (request GET ''/'' (JUndefined :: nat jsval) Map.empty))
       ''error'' = Some (JList [])
   \<and> res_locals (globals_state (request GET ''/'' (JUser (7::nat)) Map.empty)) ''user'' =
       Some (JUser 7)"
  using injected_identity[of "request GET ''/'' (JUndefined :: nat jsval) Map.empty"]
    injected_identity[of "request GET ''/'' (JUser (7::nat)) Map.empty"]
  by (simp add: request_fields isAuthenticated_def)

text \<open>
  C7, as the code has it. A request that no layer before the 404 handler answers gets
  status 404 and a render of the \<^verbatim>\<open>error\<close> view with the fixed message "The page you
  requested does not exist". The 404 handler leaves the state it receives as it is. Over
  the whole request the flash store does change: the global-variables middleware, which
  runs for every request, has emptied the three categories (their messages are in the
  context of the rendered view); every other key of the store is as it was.
\<close>

theorem unmatched_request:
  assumes reach: "run env (upstream_of NotFound) st0 [] = (tr, st, Unhandled)"
  shows "serve env st0 =
           (tr @ [NotFound], globals_state st0,
            Responded (Render 404 ''error'' not_found_options))
       \<and> view_context (globals_state st0) not_found_options ''message'' =
           Some (JStr ''The page you requested does not exist'')
       \<and> step env NotFound st = Done st (Render 404 ''error'' not_found_options)
       \<and> session_flash (globals_state st0) =
           (session_flash st0)(''success_msg'' := None, ''error_msg'' := None, ''error'' := None)"
  using serve_unmatched[OF reach]
  by (simp add: view_context_def not_found_options_def notFound_def globals_state_flash)

theorem unmatched_request_witness:
  "serve quiet_env (request GET ''/nope'' JUndefined [''info'' \<mapsto> [''kept'']]) =
     ([Json, Urlencoded, MethodOverride, Cors, Morgan, Static, Session, PassportInitialize,
       PassportSession, Flash, Globals, AuthRoutes, NotFound],
      globals_state (request GET ''/nope'' JUndefined [''info'' \<mapsto> [''kept'']]),
      Responded (Render 404 ''error'' not_found_options))
   \<and> session_flash (globals_state (request GET ''/nope'' (JUndefined :: nat jsval)
        [''info'' \<mapsto> [''kept'']])) ''info'' = Some [''kept'']"
proof -
  let ?r = "request GET ''/nope'' (JUndefined :: nat jsval) [''info'' \<mapsto> [''kept'']]"
  have reach: "run quiet_env (upstream_of NotFound) ?r [] =
           ([Json, Urlencoded, MethodOverride, Cors, Morgan, Static, Session, PassportInitialize,
             PassportSession, Flash, Globals, AuthRoutes], globals_state ?r, Unhandled)"
    by (rule forwarding_reach_not_found) (simp_all add: quiet_ext request_fields paths_checked)
  from unmatched_request[OF reach] have
    "serve quiet_env ?r =
       ([Json, Urlencoded, MethodOverride, Cors, Morgan, Static, Session, PassportInitialize,
         PassportSession, Flash, Globals, AuthRoutes, NotFound],
        globals_state ?r, Responded (Render 404 ''error'' not_found_options))"
    and "session_flash (globals_state ?r) =
       (session_flash ?r)(''success_msg'' := None, ''error_msg'' := None, ''error'' := None)"
    by simp_all
  then show ?thesis
    by (simp add: request_fields)
qed

text \<open>
  C7, as stated, fails: the request for the unregistered path \<^verbatim>\<open>/nope\<close> of a session with
  one message queued under \<^verbatim>\<open>error_msg\<close> is answered with the 404 render, and the queue of
  the session is empty afterwards.
\<close>

theorem unmatched_request_drains_queue:
  "snd (snd (serve quiet_env (request GET ''/nope'' JUndefined [''error_msg'' \<mapsto> [''stale'']]))) =
     Responded (Render 404 ''error'' not_found_options)
   \<and> session_flash (request GET ''/nope'' (JUndefined :: nat jsval)
        [''error_msg'' \<mapsto> [''stale'']]) ''error_msg'' = Some [''stale'']
   \<and> session_flash (fst (snd (serve quiet_env
        (request GET ''/nope'' JUndefined [''error_msg'' \<mapsto> [''stale'']])))) ''error_msg'' = None"
proof -
  let ?r = "request GET ''/nope'' (JUndefined :: nat jsval) [''error_msg'' \<mapsto> [''stale'']]"
  have reach: "run quiet_env (upstream_of NotFound) ?r [] =
           ([Json, Urlencoded, MethodOverride, Cors, Morgan, Static, Session, PassportInitialize,
             PassportSession, Flash, Globals, AuthRoutes], globals_state ?r, Unhandled)"
    by (rule forwarding_reach_not_found) (simp_all add: quiet_ext request_fields paths_checked)
  from serve_unmatched[OF reach] show ?thesis
    by (simp add: request_fields globals_state_flash)
qed



text \<open>
  C9. In every run of the application, whatever the external layers do, a router, a route
  handler (the gate included) or the 404 handler runs only after the session layer and,
  behind it, the global-variables middleware have run: in the trace the stage stands behind
  \<open>Globals\<close>, which stands behind \<open>Session\<close>.
\<close>

theorem session_then_injector_first:
  assumes occurs: "s \<in> set (fst (serve env st0))" and down: "downstream s"
  shows "s \<in> set (after Globals (after Session (fst (serve env st0))))
       \<and> Globals \<in> set (after Session (fst (serve env st0)))"
proof -
  obtain t1 s1 r1 where pre: "run env (map (Use ''/'') unconditional) st0 [] = (t1, s1, r1)"
    by (cases "run env (map (Use ''/'') unconditional) st0 []") auto
  from run_trace[OF pre] have sub: "set t1 \<subseteq> set unconditional"
    by (auto simp: stages_of_unconditional)
  from down have notin: "s \<notin> set unconditional" "s \<noteq> ErrorHandler"
    by (auto simp: unconditional_def)
  have serve: "serve env st0 = continue env routed (t1, s1, r1)"
    unfolding serve_def app_stack_split run_append pre ..
  show ?thesis
  proof (cases r1)
    case (Responded r)
    with serve have "fst (serve env st0) = t1" by simp
    with occurs sub notin show ?thesis by auto
  next
    case (Uncaught e)
    obtain tr st r where e: "run_err env e routed s1 t1 = (tr, st, r)"
      by (cases "run_err env e routed s1 t1") auto
    from run_err_trace[OF e] obtain xs where "tr = t1 @ xs" "set xs \<subseteq> {ErrorHandler}"
      by (auto simp: error_stages_routed)
    moreover from serve Uncaught e have "fst (serve env st0) = tr" by simp
    ultimately show ?thesis using occurs sub notin by auto
  next
    case Unhandled
    from run_unconditional[OF pre[unfolded Unhandled]] have t1: "t1 = unconditional" by simp
    obtain tr st r where e: "run env routed s1 t1 = (tr, st, r)"
      by (cases "run env routed s1 t1") auto
    from run_trace[OF e] obtain zs where zs: "tr = unconditional @ zs" by (auto simp: t1)
    from serve Unhandled e have tr: "fst (serve env st0) = tr" by simp
    have 1: "after Session tr = [PassportInitialize, PassportSession, Flash, Globals] @ zs"
      by (simp add: zs unconditional_def)
    then have 2: "after Globals (after Session tr) = zs" by simp
    from occurs tr zs notin have "s \<in> set zs" by auto
    with 1 2 tr show ?thesis by simp
  qed
qed

theorem session_then_injector_first_witness:
  "HomeHandler \<in> set (fst (serve quiet_env (request GET ''/'' JUndefined Map.empty)))
   \<and> downstream HomeHandler
   \<and> HomeHandler \<in> set (after Globals (after Session
        (fst (serve quiet_env (request GET ''/'' JUndefined Map.empty)))))
   \<and> after Globals (after Session
        (fst (serve quiet_env (request GET ''/'' JUndefined Map.empty)))) =
       [AuthRoutes, HomeHandler]"
proof -
  let ?r = "request GET ''/'' (JUndefined :: nat jsval) Map.empty"
  have reach: "run quiet_env (upstream_of HomeHandler) ?r [] =
           ([Json, Urlencoded, MethodOverride, Cors, Morgan, Static, Session, PassportInitialize,
             PassportSession, Flash, Globals, AuthRoutes], globals_state ?r, Unhandled)"
    by (rule forwarding_reach_home) (simp_all add: quiet_ext request_fields paths_checked)
  have hit: "matches (Get ''/'' [HomeHandler]) ?r"
    by (simp add: request_fields paths_checked)
  from serve_at_home[OF reach hit] have tr: "fst (serve quiet_env ?r) =
      [Json, Urlencoded, MethodOverride, Cors, Morgan, Static, Session, PassportInitialize,
       PassportSession, Flash, Globals, AuthRoutes, HomeHandler]"
    by simp
  then have occurs: "HomeHandler \<in> set (fst (serve quiet_env ?r))" by simp
  have down: "downstream HomeHandler" by simp
  from session_then_injector_first[OF occurs down] occurs show ?thesis
    by (simp add: tr)
qed

text \<open>
  C10. The two configuration values always resolve: with \<^verbatim>\<open>SESSION_SECRET\<close> unset the
  session secret is the string \<^verbatim>\<open>your_fallback_session_secret\<close>, with \<^verbatim>\<open>PORT\<close> unset the
  port is the number 3000, and in every environment both values are truthy, so neither
  option is ever missing.
\<close>

theorem startup_fallbacks:
  "(penv ''SESSION_SECRET'' = None \<longrightarrow>
      (session_secret penv :: 'u jsval) = JStr ''your_fallback_session_secret'')
   \<and> (penv ''PORT'' = None \<longrightarrow> (listen_port penv :: 'u jsval) = JNum 3000)
   \<and> truthy (session_secret penv :: 'u jsval)
   \<and> truthy (listen_port penv :: 'u jsval)"
  by (auto simp: session_secret_def listen_port_def getenv_def js_or_def split: option.splits)

theorem startup_fallbacks_witness:
  "(session_secret Map.empty :: nat jsval) = JStr ''your_fallback_session_secret''
   \<and> (listen_port Map.empty :: nat jsval) = JNum 3000
   \<and> (listen_port [''PORT'' \<mapsto> ''8080''] :: nat jsval) = JStr ''8080''"
  using startup_fallbacks[of Map.empty, where 'u = nat]
  by (simp add: listen_port_def getenv_def js_or_def)

end
